theory Spec2Isabelle
  imports Main "HOL-Library.Sublist"
begin

section \<open>The user record\<close>

text \<open>
  The command-line tool of \<^verbatim>\<open>src/app/cli.py\<close> manages one table of users.
  The class \<^verbatim>\<open>User\<close> lives in \<^verbatim>\<open>app/models.py\<close>, which is not among the sources;
  its fields are those of the data model of the specification: an identifier generated
  by the store (absent until the first successful persist), and three texts.
\<close>

record user =
  user_id :: "nat option"
  username :: string
  email :: string
  password :: string

text \<open>
  Modelled from the spec: the constructor of \<^verbatim>\<open>app/models.py\<close> (missing), which
  "takes (username, email, password)" and creates the record in memory; the password is
  "stored as given", and the identifier is "assigned only after first successful persist".
\<close>

definition User :: "string \<Rightarrow> string \<Rightarrow> string \<Rightarrow> user" where
  "User u e p = \<lparr>user_id = None, username = u, email = e, password = p\<rparr>"

section \<open>Errors, console output, outcome of a command\<close>

text \<open>
  \<open>ConstraintViolation\<close> is SQLAlchemy's \<^verbatim>\<open>IntegrityError\<close>; \<open>BadParameter\<close> is the
  rejection of an argument by the command-line parser (the \<^verbatim>\<open>min=\<close> bounds of
  \<^verbatim>\<open>list_users\<close>) before the command body runs; \<open>OverflowError\<close> is raised when
  a Python integer handed to the store as a query parameter does not fit the store's
  64-bit signed integers.
\<close>

datatype error = ConstraintViolation | BadParameter | OverflowError

text \<open>
  One item per \<^verbatim>\<open>print\<close> call: a text, a user record (its rendering is that of the
  missing class), or the driver's error object \<^verbatim>\<open>e.orig\<close>.
\<close>

datatype out = Text string | Rec user | Orig error

text \<open>
  What one invocation of a command leaves behind: the exception that left the function
  (if any), what was printed in order, and the durable content of the users table.
\<close>

record outcome =
  raised :: "error option"
  printed :: "out list"
  store :: "user list"

section \<open>Storage gateway\<close>

text \<open>
  \<^verbatim>\<open>app/database.py\<close> (\<^verbatim>\<open>get_session\<close>, \<^verbatim>\<open>drop_all\<close>, \<^verbatim>\<open>create_db_and_tables\<close>) is not
  among the sources. The gateway below follows section 4.1 of the specification. The
  durable store is the list of rows of the users table in store order (insertion order);
  a session is a handle on it together with the staged mutations.
\<close>

datatype mutation = Insert user | Update user | Delete user

record session =
  durable :: "user list"
  staged :: "mutation list"

text \<open>Modelled from the spec: \<^verbatim>\<open>get_session\<close> of the missing \<^verbatim>\<open>app/database.py\<close>,
  "open\_session() -> handle"; nothing is staged in a new session.\<close>

definition get_session :: "user list \<Rightarrow> session" where
  "get_session st = \<lparr>durable = st, staged = []\<rparr>"

text \<open>Modelled from the spec: leaving the \<^verbatim>\<open>with\<close> block of the missing
  \<^verbatim>\<open>get_session\<close>, "guaranteed release ... on all exit paths"; what was staged and not
  committed is lost, the durable rows stay.\<close>

definition release :: "session \<Rightarrow> user list" where
  "release db = durable db"

text \<open>Modelled from the spec: "execute\_select(predicate) produces zero, one, or many
  matching User records, order determined by store"; this is
  \<^verbatim>\<open>db.exec(select(User).where(...)).all()\<close>.\<close>

definition exec_select :: "session \<Rightarrow> (user \<Rightarrow> bool) \<Rightarrow> user list" where
  "exec_select db pred = filter pred (durable db)"

text \<open>\<^verbatim>\<open>.first()\<close> of a result: the first row or \<^verbatim>\<open>None\<close>.\<close>

definition first :: "'a list \<Rightarrow> 'a option" where
  "first xs = (case xs of [] \<Rightarrow> None | x # _ \<Rightarrow> Some x)"

text \<open>Modelled from the spec: "add(record) / delete(record) -- stage a mutation". A
  record without identifier is new and staged as an insert; a record that was read from
  the store is staged as an update of its row.\<close>

definition add :: "session \<Rightarrow> user \<Rightarrow> session" where
  "add db r = db\<lparr>staged := staged db @ [if user_id r = None then Insert r else Update r]\<rparr>"

definition delete :: "session \<Rightarrow> user \<Rightarrow> session" where
  "delete db r = db\<lparr>staged := staged db @ [Delete r]\<rparr>"

text \<open>Modelled from the spec: the identifier is "generated by store". The specification
  does not say which one; the model takes the successor of the largest identifier in the
  table, so that it is new.\<close>

definition fresh_id :: "user list \<Rightarrow> nat" where
  "fresh_id rows = Suc (fold max (map (\<lambda>r. case user_id r of None \<Rightarrow> 0 | Some i \<Rightarrow> i) rows) 0)"

definition persist :: "user list \<Rightarrow> user \<Rightarrow> user" where
  "persist rows r = r\<lparr>user_id := Some (fresh_id rows)\<rparr>"

text \<open>Modelled from the spec: the uniqueness rules of the table declared in the missing
  \<^verbatim>\<open>app/models.py\<close>: "username unique; email unique". An insert collides with any row of
  the same username or email, an update with any other row.\<close>

fun apply_mutation :: "user list \<Rightarrow> mutation \<Rightarrow> error + user list" where
  "apply_mutation rows (Insert r) =
     (if \<exists>x \<in> set rows. username x = username r \<or> email x = email r
      then Inl ConstraintViolation
      else Inr (rows @ [persist rows r]))"
| "apply_mutation rows (Update r) =
     (if \<exists>x \<in> set rows. user_id x \<noteq> user_id r \<and> (username x = username r \<or> email x = email r)
      then Inl ConstraintViolation
      else Inr (map (\<lambda>x. if user_id x = user_id r then r else x) rows))"
| "apply_mutation rows (Delete r) = Inr (filter (\<lambda>x. user_id x \<noteq> user_id r) rows)"

fun flush :: "user list \<Rightarrow> mutation list \<Rightarrow> error + user list" where
  "flush rows [] = Inr rows"
| "flush rows (m # ms) =
     (case apply_mutation rows m of Inl e \<Rightarrow> Inl e | Inr rows' \<Rightarrow> flush rows' ms)"

text \<open>Modelled from the spec: "commit() -- durably apply staged mutations; fails with
  ConstraintViolation if a uniqueness invariant (username or email) would be broken";
  a failed commit leaves the durable rows as they were.\<close>

definition commit :: "session \<Rightarrow> error + session" where
  "commit db =
     (case flush (durable db) (staged db) of
        Inl e \<Rightarrow> Inl e
      | Inr rows \<Rightarrow> Inr \<lparr>durable = rows, staged = []\<rparr>)"

text \<open>Modelled from the spec: "rollback() to discard the staged mutation without
  affecting prior durable state".\<close>

definition rollback :: "session \<Rightarrow> session" where
  "rollback db = db\<lparr>staged := []\<rparr>"

text \<open>Modelled from the spec: \<^verbatim>\<open>drop_all\<close> and \<^verbatim>\<open>create_db_and_tables\<close> of the missing
  \<^verbatim>\<open>app/database.py\<close>, "destructive reset and schema (re)creation": dropping discards
  every row, creating the schema adds no row.\<close>

definition drop_all :: "session \<Rightarrow> session" where
  "drop_all db = db\<lparr>durable := []\<rparr>"

definition create_db_and_tables :: "session \<Rightarrow> session" where
  "create_db_and_tables db = db"

text \<open>\<^verbatim>\<open>db.refresh(obj)\<close>: the attributes of the object are read again from its row.\<close>

definition refresh :: "session \<Rightarrow> user \<Rightarrow> user" where
  "refresh db r = (case first (exec_select db (\<lambda>x. user_id x = user_id r)) of None \<Rightarrow> r | Some x \<Rightarrow> x)"

section \<open>Substring search as the store runs it\<close>

text \<open>
  \<^verbatim>\<open>User.username.contains(partial)\<close> is not a Python substring test: SQLAlchemy's column
  operator \<^verbatim>\<open>contains\<close> renders the SQL condition \<^verbatim>\<open>username LIKE '%' || :partial || '%'\<close>,
  and without \<^verbatim>\<open>autoescape=True\<close> (the call here passes nothing) the characters
  \<^verbatim>\<open>%\<close> and \<^verbatim>\<open>_\<close> of \<^verbatim>\<open>partial\<close> are wildcards of the pattern too: \<^verbatim>\<open>%\<close> stands for
  any run of characters, \<^verbatim>\<open>_\<close> for exactly one. How two ordinary characters compare is
  the engine's business (SQLite's \<^verbatim>\<open>LIKE\<close> ignores ASCII case, PostgreSQL's does not);
  the engine is chosen in the missing \<^verbatim>\<open>app/database.py\<close>, so the comparison is a
  parameter.
\<close>

type_synonym collation = "char \<Rightarrow> char \<Rightarrow> bool"

fun like :: "collation \<Rightarrow> string \<Rightarrow> string \<Rightarrow> bool" where
  "like ceq [] s = (s = [])"
| "like ceq (p # ps) [] = (p = CHR ''%'' \<and> like ceq ps [])"
| "like ceq (p # ps) (c # cs) =
     (if p = CHR ''%'' then like ceq ps (c # cs) \<or> like ceq (p # ps) cs
      else (p = CHR ''_'' \<or> ceq p c) \<and> like ceq ps cs)"

definition contains :: "collation \<Rightarrow> string \<Rightarrow> string \<Rightarrow> bool" where
  "contains ceq col partial = like ceq (''%'' @ partial @ ''%'') col"

text \<open>The two usual comparisons: exact, and ignoring the case of ASCII letters.\<close>

definition binary :: collation where
  "binary a b = (a = b)"

definition ascii_lower :: "char \<Rightarrow> char" where
  "ascii_lower c =
     (let n = of_char c :: nat in if 65 \<le> n \<and> n \<le> 90 then char_of (n + 32) else c)"

definition nocase :: collation where
  "nocase a b = (ascii_lower a = ascii_lower b)"

section \<open>The commands of \<^verbatim>\<open>src/app/cli.py\<close>\<close>

text \<open>
  Each command takes the durable store as it is before the invocation and returns its
  outcome. An exception that is not caught leaves the \<^verbatim>\<open>with\<close> block, which releases
  the session; nothing after the raising statement is printed.
\<close>

definition initialize :: "user list \<Rightarrow> outcome" where
  "initialize st =
     (let db = get_session st;
          db = drop_all db;
          db = create_db_and_tables db;
          bob = User ''bob'' ''bob@mail.com'' ''bobpass'';
          db = add db bob
      in case commit db of
           Inl e \<Rightarrow> \<lparr>raised = Some e, printed = [], store = release db\<rparr>
         | Inr db' \<Rightarrow>
             (let bob = refresh db' (persist (durable db) bob) in
              \<lparr>raised = None, printed = [Text ''Database Initialized''], store = release db'\<rparr>))"

definition get_user :: "user list \<Rightarrow> string \<Rightarrow> outcome" where
  "get_user st u =
     (let db = get_session st in
      case first (exec_select db (\<lambda>x. username x = u)) of
        None \<Rightarrow> \<lparr>raised = None, printed = [Text (u @ '' not found!'')], store = release db\<rparr>
      | Some usr \<Rightarrow> \<lparr>raised = None, printed = [Rec usr], store = release db\<rparr>)"

definition get_all_users :: "user list \<Rightarrow> outcome" where
  "get_all_users st =
     (let db = get_session st; all_users = exec_select db (\<lambda>x. True) in
      if all_users = []
      then \<lparr>raised = None, printed = [Text ''No users found!''], store = release db\<rparr>
      else \<lparr>raised = None, printed = map Rec all_users, store = release db\<rparr>)"

text \<open>After a successful commit the attributes of \<^verbatim>\<open>user\<close> are those of its row, which
  the update has just written: the confirmation reads them from the updated object.\<close>

definition change_email :: "user list \<Rightarrow> string \<Rightarrow> string \<Rightarrow> outcome" where
  "change_email st u new_email =
     (let db = get_session st in
      case first (exec_select db (\<lambda>x. username x = u)) of
        None \<Rightarrow>
          \<lparr>raised = None, printed = [Text (u @ '' not found! Unable to update email.'')],
           store = release db\<rparr>
      | Some usr \<Rightarrow>
          (let usr = usr\<lparr>email := new_email\<rparr>;
               db = add db usr
           in case commit db of
                Inl e \<Rightarrow> \<lparr>raised = Some e, printed = [], store = release db\<rparr>
              | Inr db' \<Rightarrow>
                  \<lparr>raised = None,
                   printed = [Text (''Updated '' @ username usr @ [CHR 0x27] @ ''s email to '' @ email usr)],
                   store = release db'\<rparr>))"

text \<open>After a successful commit \<^verbatim>\<open>newuser\<close> is the inserted row, with the identifier the
  store gave it.\<close>

definition create_user :: "user list \<Rightarrow> string \<Rightarrow> string \<Rightarrow> string \<Rightarrow> outcome" where
  "create_user st u e p =
     (let db = get_session st;
          newuser = User u e p;
          db = add db newuser
      in case commit db of
           Inl err \<Rightarrow>
             (let db = rollback db in
              \<lparr>raised = None,
               printed = [Orig err, Text ''Username or email already taken!''],
               store = release db\<rparr>)
         | Inr db' \<Rightarrow>
             \<lparr>raised = None, printed = [Rec (persist st newuser)], store = release db'\<rparr>)"

definition delete_user :: "user list \<Rightarrow> string \<Rightarrow> outcome" where
  "delete_user st u =
     (let db = get_session st in
      case first (exec_select db (\<lambda>x. username x = u)) of
        None \<Rightarrow>
          \<lparr>raised = None, printed = [Text (u @ '' not found! Unable to delete user.'')],
           store = release db\<rparr>
      | Some usr \<Rightarrow>
          (let db = delete db usr in
           case commit db of
             Inl e \<Rightarrow> \<lparr>raised = Some e, printed = [], store = release db\<rparr>
           | Inr db' \<Rightarrow>
               \<lparr>raised = None, printed = [Text (''User '' @ u @ '' deleted successfully.'')],
                store = release db'\<rparr>))"

definition find_user_partial :: "collation \<Rightarrow> user list \<Rightarrow> string \<Rightarrow> outcome" where
  "find_user_partial ceq st partial =
     (let db = get_session st;
          users = exec_select db (\<lambda>x. contains ceq (username x) partial \<or> contains ceq (email x) partial)
      in if users = []
         then \<lparr>raised = None,
               printed = [Text (''No users found matching '' @ [CHR 0x22] @ partial @ [CHR 0x22])],
               store = release db\<rparr>
         else \<lparr>raised = None, printed = map Rec users, store = release db\<rparr>)"

text \<open>\<^verbatim>\<open>db.exec(select(User).offset(offset).limit(limit)).all()\<close>: the scan in store
  order, without its first \<open>offset\<close> rows, cut after \<open>limit\<close> rows. Python's integers
  are unbounded, the store's are 64-bit signed: the two values travel as parameters of
  the query, and a value of \<open>2 ^ 63\<close> or more makes the execution raise instead of
  returning rows. The command reaches this query only with a limit of at least 1 and
  an offset of at least 0, so the conversion to \<open>nat\<close> loses nothing.\<close>

definition page :: "session \<Rightarrow> int \<Rightarrow> int \<Rightarrow> error + user list" where
  "page db limit offset =
     (if 2 ^ 63 \<le> limit \<or> 2 ^ 63 \<le> offset then Inl OverflowError
      else Inr (take (nat limit) (drop (nat offset) (exec_select db (\<lambda>x. True)))))"

text \<open>The bounds \<^verbatim>\<open>min=1\<close> and \<^verbatim>\<open>min=0\<close> of the two arguments are checked by the
  command-line parser; a value below its bound never reaches the body. There is no
  upper bound on either argument, and no handler around the query: an error of the
  query leaves the command before anything is printed.\<close>

definition list_users :: "user list \<Rightarrow> int \<Rightarrow> int \<Rightarrow> outcome" where
  "list_users st limit offset =
     (if limit < 1 \<or> offset < 0
      then \<lparr>raised = Some BadParameter, printed = [], store = st\<rparr>
      else
        (let db = get_session st in
         case page db limit offset of
           Inl e \<Rightarrow> \<lparr>raised = Some e, printed = [], store = release db\<rparr>
         | Inr users \<Rightarrow>
             if users = []
             then \<lparr>raised = None, printed = [Text ''No users found!''], store = release db\<rparr>
             else \<lparr>raised = None, printed = map Rec users, store = release db\<rparr>))"

section \<open>Invariant of the durable store, sample data\<close>

text \<open>
  The invariants of the data model: every durable row has an identifier, and identifiers,
  usernames and emails are unique across the table.
\<close>

definition wf_store :: "user list \<Rightarrow> bool" where
  "wf_store st \<longleftrightarrow>
     (\<forall>x \<in> set st. user_id x \<noteq> None) \<and> distinct (map user_id st) \<and>
     distinct (map username st) \<and> distinct (map email st)"

text \<open>A printed text contains \<open>s\<close> as a contiguous piece.\<close>

definition mentions :: "out list \<Rightarrow> string \<Rightarrow> bool" where
  "mentions outs s = list_ex (\<lambda>out. case out of Text t \<Rightarrow> sublist s t | _ \<Rightarrow> False) outs"

text \<open>Durable rows used as concrete inputs below.\<close>

definition demo_user :: "nat \<Rightarrow> string \<Rightarrow> user" where
  "demo_user n name =
     \<lparr>user_id = Some n, username = name, email = name @ ''@mail.com'', password = name @ ''pass''\<rparr>"

definition bob1 :: user where
  "bob1 = demo_user 1 ''bob''"

definition ann2 :: user where
  "ann2 = demo_user 2 ''ann''"

definition five_users :: "user list" where
  "five_users = [demo_user 1 ''bob'', demo_user 2 ''ann'', demo_user 3 ''cy'', demo_user 4 ''dee'', demo_user 5 ''eve'']"

section \<open>Facts about the gateway\<close>

lemma first_filter_None: "(first (filter P xs) = None) = (\<forall>x \<in> set xs. \<not> P x)"
  by (induction xs) (auto simp: first_def)

lemma first_filter_Some: "first (filter P xs) = Some y \<Longrightarrow> y \<in> set xs \<and> P y"
  by (induction xs) (auto simp: first_def split: if_splits)

lemma first_map: "first (map f xs) = map_option f (first xs)"
  by (cases xs) (auto simp: first_def)

lemma commit_insert:
  "commit (add (get_session st) (User u e p)) =
     (if \<exists>x \<in> set st. username x = u \<or> email x = e then Inl ConstraintViolation
      else Inr \<lparr>durable = st @ [persist st (User u e p)], staged = []\<rparr>)"
  by (simp add: commit_def add_def get_session_def User_def)

lemma commit_update:
  "user_id r \<noteq> None \<Longrightarrow> commit (add (get_session st) r) =
     (if \<exists>x \<in> set st. user_id x \<noteq> user_id r \<and> (username x = username r \<or> email x = email r)
      then Inl ConstraintViolation
      else Inr \<lparr>durable = map (\<lambda>x. if user_id x = user_id r then r else x) st, staged = []\<rparr>)"
  by (cases "user_id r") (simp_all add: commit_def add_def get_session_def)

lemma commit_delete:
  "commit (delete (get_session st) r) =
     Inr \<lparr>durable = filter (\<lambda>x. user_id x \<noteq> user_id r) st, staged = []\<rparr>"
  by (simp add: commit_def delete_def get_session_def)

lemma release_rollback: "release (rollback (add (get_session st) r)) = st"
  by (simp add: release_def rollback_def add_def get_session_def)

lemma release_session:
  "release (get_session st) = st"
  "release (add (get_session st) r) = st"
  "release (delete (get_session st) r) = st"
  by (simp_all add: release_def add_def delete_def get_session_def)

lemma wf_same_id:
  "wf_store st \<Longrightarrow> x \<in> set st \<Longrightarrow> y \<in> set st \<Longrightarrow> (user_id x = user_id y) = (x = y)"
  by (auto simp: wf_store_def distinct_map dest: inj_onD)

lemma wf_same_username:
  "wf_store st \<Longrightarrow> x \<in> set st \<Longrightarrow> y \<in> set st \<Longrightarrow> (username x = username y) = (x = y)"
  by (auto simp: wf_store_def distinct_map dest: inj_onD)

lemma filter_one:
  "distinct (map f xs) \<Longrightarrow> v \<in> f ` set xs \<Longrightarrow> length (filter (\<lambda>x. f x = v) xs) = 1"
  by (induction xs) (auto simp: filter_empty_conv image_iff)

lemma map_same_id:
  assumes "wf_store st" "usr \<in> set st" "user_id r = user_id usr"
  shows "map (\<lambda>x. if user_id x = user_id r then r else x) st = map (\<lambda>x. if x = usr then r else x) st"
  using assms by (auto simp: wf_same_id)

lemma wf_first:
  assumes "wf_store st" "usr \<in> set st"
  shows "first (filter (\<lambda>x. username x = username usr) st) = Some usr"
proof (cases "first (filter (\<lambda>x. username x = username usr) st)")
  case None
  then show ?thesis using assms(2) by (auto simp: first_filter_None)
next
  case (Some y)
  then have "y \<in> set st \<and> username y = username usr" by (rule first_filter_Some)
  then have "y = usr" using assms by (auto simp: wf_same_username)
  then show ?thesis using Some by simp
qed

lemma wf_bob1: "wf_store [bob1]"
  by (simp add: wf_store_def bob1_def demo_user_def)

lemma wf_two: "wf_store [bob1, ann2]"
  by (simp add: wf_store_def bob1_def ann2_def demo_user_def)

lemma change_email_collision:
  assumes "wf_store st" "usr \<in> set st" "x \<in> set st" "x \<noteq> usr" "email x = new_email"
  shows "change_email st (username usr) new_email = \<lparr>raised = Some ConstraintViolation, printed = [], store = st\<rparr>"
proof -
  have f: "first (exec_select (get_session st) (\<lambda>x. username x = username usr)) = Some usr"
    using assms(1,2) by (simp add: exec_select_def get_session_def wf_first)
  have i: "user_id (usr\<lparr>email := new_email\<rparr>) \<noteq> None"
    using assms(1,2) by (auto simp: wf_store_def)
  have "user_id x \<noteq> user_id usr"
    using assms by (simp add: wf_same_id)
  then have c: "commit (add (get_session st) (usr\<lparr>email := new_email\<rparr>)) = Inl ConstraintViolation"
    using assms(3,5) by (subst commit_update [OF i]) auto
  show ?thesis
    by (simp add: change_email_def f c Let_def release_session)
qed

lemma change_email_success:
  assumes "wf_store st" "usr \<in> set st" "\<forall>x \<in> set st. x \<noteq> usr \<longrightarrow> email x \<noteq> new_email"
  shows "change_email st (username usr) new_email =
     \<lparr>raised = None,
      printed = [Text (''Updated '' @ username usr @ [CHR 0x27] @ ''s email to '' @ new_email)],
      store = map (\<lambda>x. if x = usr then usr\<lparr>email := new_email\<rparr> else x) st\<rparr>"
proof -
  let ?r = "usr\<lparr>email := new_email\<rparr>"
  have f: "first (exec_select (get_session st) (\<lambda>x. username x = username usr)) = Some usr"
    using assms(1,2) by (simp add: exec_select_def get_session_def wf_first)
  have i: "user_id ?r \<noteq> None"
    using assms(1,2) by (auto simp: wf_store_def)
  have n: "\<not> (\<exists>x \<in> set st. user_id x \<noteq> user_id ?r \<and> (username x = username ?r \<or> email x = email ?r))"
    using assms by (auto simp: wf_same_username wf_same_id)
  have c: "commit (add (get_session st) ?r) =
      Inr \<lparr>durable = map (\<lambda>x. if x = usr then ?r else x) st, staged = []\<rparr>"
    using n map_same_id [OF assms(1,2), of ?r] by (subst commit_update [OF i]) simp
  show ?thesis
    by (simp add: change_email_def f c Let_def release_def)
qed

section \<open>Creating a user that collides\<close>

text \<open>
  C1. Whenever the username or the email of the new user already occurs in a durable
  row, the commit of \<open>create_user\<close> fails with the uniqueness violation, the command
  rolls back, prints the driver's error and then "Username or email already taken!",
  returns normally, and the durable store is the store before the call; in a store that
  respects the uniqueness rules exactly one row with that username (that email) remains.
\<close>

theorem create_user_duplicate_rejected:
  assumes "\<exists>x \<in> set st. username x = u \<or> email x = e"
  shows "commit (add (get_session st) (User u e p)) = Inl ConstraintViolation \<and>
         create_user st u e p =
           \<lparr>raised = None,
            printed = [Orig ConstraintViolation, Text ''Username or email already taken!''],
            store = st\<rparr> \<and>
         (wf_store st \<longrightarrow>
            (u \<in> username ` set st \<longrightarrow>
               length (filter (\<lambda>x. username x = u) (store (create_user st u e p))) = 1) \<and>
            (e \<in> email ` set st \<longrightarrow>
               length (filter (\<lambda>x. email x = e) (store (create_user st u e p))) = 1))"
proof -
  have c: "commit (add (get_session st) (User u e p)) = Inl ConstraintViolation"
    using assms by (simp add: commit_insert)
  have r: "create_user st u e p =
           \<lparr>raised = None,
            printed = [Orig ConstraintViolation, Text ''Username or email already taken!''],
            store = st\<rparr>"
    by (simp add: create_user_def c Let_def release_rollback)
  have s: "store (create_user st u e p) = st"
    by (simp add: r)
  show ?thesis
    unfolding s using c r by (simp add: wf_store_def filter_one)
qed

theorem create_user_duplicate_rejected_witness:
  "commit (add (get_session [bob1]) (User ''bob'' ''rob@mail.com'' ''pw'')) = Inl ConstraintViolation \<and>
   create_user [bob1] ''bob'' ''rob@mail.com'' ''pw'' =
     \<lparr>raised = None,
      printed = [Orig ConstraintViolation, Text ''Username or email already taken!''],
      store = [bob1]\<rparr> \<and>
   length (filter (\<lambda>x. username x = ''bob'') (store (create_user [bob1] ''bob'' ''rob@mail.com'' ''pw''))) = 1"
proof -
  have h: "\<exists>x \<in> set [bob1]. username x = ''bob'' \<or> email x = ''rob@mail.com''"
    by (simp add: bob1_def demo_user_def)
  have m: "''bob'' \<in> username ` set [bob1]"
    by (simp add: bob1_def demo_user_def)
  show ?thesis
    using create_user_duplicate_rejected [OF h, of "''pw''"] wf_bob1 m by blast
qed

section \<open>A colliding email in \<open>change_email\<close>\<close>

text \<open>
  C2. In a store that respects the uniqueness rules, when the user exists and the new
  email is the email of another row, \<open>change_email\<close> has no handler: the violation
  raised by the commit leaves the command, nothing is printed and the store is as
  before. The same violation in \<open>create_user\<close> is caught: the command returns normally
  and prints its message.
\<close>

theorem change_email_violation_propagates:
  assumes "wf_store st" "usr \<in> set st" "x \<in> set st" "x \<noteq> usr" "email x = new_email"
  shows "raised (change_email st (username usr) new_email) = Some ConstraintViolation \<and>
         printed (change_email st (username usr) new_email) = [] \<and>
         store (change_email st (username usr) new_email) = st \<and>
         raised (create_user st u new_email p) = None \<and>
         printed (create_user st u new_email p) =
           [Orig ConstraintViolation, Text ''Username or email already taken!'']"
proof -
  have "\<exists>y \<in> set st. username y = u \<or> email y = new_email"
    using assms(3,5) by auto
  then have "create_user st u new_email p =
           \<lparr>raised = None,
            printed = [Orig ConstraintViolation, Text ''Username or email already taken!''],
            store = st\<rparr>"
    by (simp add: create_user_def commit_insert Let_def release_rollback)
  then show ?thesis
    using change_email_collision [OF assms] by simp
qed

theorem change_email_violation_propagates_witness:
  "raised (change_email [bob1, ann2] ''bob'' ''ann@mail.com'') = Some ConstraintViolation \<and>
   printed (change_email [bob1, ann2] ''bob'' ''ann@mail.com'') = [] \<and>
   store (change_email [bob1, ann2] ''bob'' ''ann@mail.com'') = [bob1, ann2] \<and>
   raised (create_user [bob1, ann2] ''cy'' ''ann@mail.com'' ''pw'') = None \<and>
   printed (create_user [bob1, ann2] ''cy'' ''ann@mail.com'' ''pw'') =
     [Orig ConstraintViolation, Text ''Username or email already taken!'']"
proof -
  have a: "bob1 \<in> set [bob1, ann2]" "ann2 \<in> set [bob1, ann2]" by simp_all
  have d: "ann2 \<noteq> bob1" by (simp add: bob1_def ann2_def demo_user_def)
  have e: "email ann2 = ''ann@mail.com''" by (simp add: ann2_def demo_user_def)
  have n: "username bob1 = ''bob''" by (simp add: bob1_def demo_user_def)
  show ?thesis
    using change_email_violation_propagates [OF wf_two a d e, of "''cy''" "''pw''"] unfolding n by simp
qed

section \<open>Creating, then reading\<close>

text \<open>
  C6. When neither the username nor the email occurs in the store, \<open>create_user\<close>
  succeeds and appends the new row, and \<open>get_user\<close> with the same username then finds
  and prints that row: its username, email and password are the ones given (the
  password as given, not hashed).
\<close>

theorem create_then_get_user:
  assumes "u \<notin> username ` set st" "e \<notin> email ` set st"
  shows "raised (create_user st u e p) = None \<and>
         printed (create_user st u e p) = [Rec (persist st (User u e p))] \<and>
         store (create_user st u e p) = st @ [persist st (User u e p)] \<and>
         raised (get_user (store (create_user st u e p)) u) = None \<and>
         printed (get_user (store (create_user st u e p)) u) = [Rec (persist st (User u e p))] \<and>
         username (persist st (User u e p)) = u \<and>
         email (persist st (User u e p)) = e \<and>
         password (persist st (User u e p)) = p"
proof -
  have n: "\<not> (\<exists>x \<in> set st. username x = u \<or> email x = e)"
    using assms by auto
  have c: "create_user st u e p =
      \<lparr>raised = None, printed = [Rec (persist st (User u e p))], store = st @ [persist st (User u e p)]\<rparr>"
    using n by (simp add: create_user_def commit_insert Let_def release_def)
  have fld: "username (persist st (User u e p)) = u" "email (persist st (User u e p)) = e"
    "password (persist st (User u e p)) = p"
    by (simp_all add: persist_def User_def)
  have "filter (\<lambda>x. username x = u) st = []"
    using assms(1) by (auto simp: filter_empty_conv)
  then have "first (exec_select (get_session (st @ [persist st (User u e p)])) (\<lambda>x. username x = u))
      = Some (persist st (User u e p))"
    by (simp add: exec_select_def get_session_def fld first_def)
  then have g: "get_user (st @ [persist st (User u e p)]) u =
      \<lparr>raised = None, printed = [Rec (persist st (User u e p))], store = st @ [persist st (User u e p)]\<rparr>"
    by (simp add: get_user_def release_session)
  show ?thesis
    by (simp add: c g fld)
qed

theorem create_then_get_user_witness:
  "raised (create_user [bob1] ''ann'' ''ann@x.org'' ''pw'') = None \<and>
   printed (get_user (store (create_user [bob1] ''ann'' ''ann@x.org'' ''pw'')) ''ann'') =
     [Rec \<lparr>user_id = Some 2, username = ''ann'', email = ''ann@x.org'', password = ''pw''\<rparr>]"
proof -
  have h: "''ann'' \<notin> username ` set [bob1]" "''ann@x.org'' \<notin> email ` set [bob1]"
    by (simp_all add: bob1_def demo_user_def)
  have p: "persist [bob1] (User ''ann'' ''ann@x.org'' ''pw'') =
      \<lparr>user_id = Some 2, username = ''ann'', email = ''ann@x.org'', password = ''pw''\<rparr>"
    by (simp add: persist_def User_def fresh_id_def bob1_def demo_user_def)
  show ?thesis
    using create_then_get_user [OF h, of "''pw''"] unfolding p by blast
qed

section \<open>Unknown usernames\<close>

text \<open>
  C7. For a username that no row carries, \<open>get_user\<close> prints "<u> not found!" and
  \<open>delete_user\<close> prints "<u> not found! Unable to delete user."; both return without
  an exception and leave the durable store exactly as it was.
\<close>

theorem absent_user_not_found:
  assumes "u \<notin> username ` set st"
  shows "get_user st u = \<lparr>raised = None, printed = [Text (u @ '' not found!'')], store = st\<rparr> \<and>
         delete_user st u =
           \<lparr>raised = None, printed = [Text (u @ '' not found! Unable to delete user.'')], store = st\<rparr>"
proof -
  have "first (exec_select (get_session st) (\<lambda>x. username x = u)) = None"
    using assms by (auto simp: exec_select_def get_session_def first_filter_None)
  then show ?thesis
    by (simp add: get_user_def delete_user_def release_session)
qed

theorem absent_user_not_found_witness:
  "get_user [bob1] ''ann'' = \<lparr>raised = None, printed = [Text ''ann not found!''], store = [bob1]\<rparr> \<and>
   delete_user [bob1] ''ann'' =
     \<lparr>raised = None, printed = [Text ''ann not found! Unable to delete user.''], store = [bob1]\<rparr>"
proof -
  have h: "''ann'' \<notin> username ` set [bob1]"
    by (simp add: bob1_def demo_user_def)
  show ?thesis
    using absent_user_not_found [OF h] by simp
qed

section \<open>Changing an email\<close>

text \<open>
  C8. In a store that respects the uniqueness rules, with a row \<open>usr\<close> and a new email
  that no other row carries, \<open>change_email\<close> on the username of \<open>usr\<close> succeeds; the
  store afterwards is the store before with exactly that row replaced by itself with the
  new email (identifier, username and password kept, every other row and the order
  untouched), and \<open>get_user\<close> on the same username then prints the row with the new
  email.
\<close>

theorem change_email_frame:
  assumes "wf_store st" "usr \<in> set st" "\<forall>x \<in> set st. x \<noteq> usr \<longrightarrow> email x \<noteq> new_email"
  shows "raised (change_email st (username usr) new_email) = None \<and>
         store (change_email st (username usr) new_email) =
           map (\<lambda>x. if x = usr then usr\<lparr>email := new_email\<rparr> else x) st \<and>
         user_id (usr\<lparr>email := new_email\<rparr>) = user_id usr \<and>
         username (usr\<lparr>email := new_email\<rparr>) = username usr \<and>
         password (usr\<lparr>email := new_email\<rparr>) = password usr \<and>
         email (usr\<lparr>email := new_email\<rparr>) = new_email \<and>
         get_user (store (change_email st (username usr) new_email)) (username usr) =
           \<lparr>raised = None, printed = [Rec (usr\<lparr>email := new_email\<rparr>)],
            store = store (change_email st (username usr) new_email)\<rparr>"
proof -
  let ?f = "\<lambda>x. if x = usr then usr\<lparr>email := new_email\<rparr> else x"
  have c: "store (change_email st (username usr) new_email) = map ?f st"
      "raised (change_email st (username usr) new_email) = None"
    using change_email_success [OF assms] by simp_all
  have "filter (\<lambda>x. username x = username usr) (map ?f st) =
        map ?f (filter (\<lambda>x. username x = username usr) st)"
    by (induction st) auto
  then have "first (filter (\<lambda>x. username x = username usr) (map ?f st)) = Some (?f usr)"
    using wf_first [OF assms(1,2)] by (simp add: first_map)
  then have "get_user (map ?f st) (username usr) =
      \<lparr>raised = None, printed = [Rec (usr\<lparr>email := new_email\<rparr>)], store = map ?f st\<rparr>"
    by (simp add: get_user_def exec_select_def get_session_def release_def)
  then show ?thesis
    by (simp add: c)
qed

theorem change_email_frame_witness:
  "raised (change_email [bob1, ann2] ''ann'' ''a@x.org'') = None \<and>
   store (change_email [bob1, ann2] ''ann'' ''a@x.org'') = [bob1, ann2\<lparr>email := ''a@x.org''\<rparr>] \<and>
   printed (get_user (store (change_email [bob1, ann2] ''ann'' ''a@x.org'')) ''ann'') =
     [Rec (ann2\<lparr>email := ''a@x.org''\<rparr>)]"
proof -
  have a: "ann2 \<in> set [bob1, ann2]" by simp
  have h: "\<forall>x \<in> set [bob1, ann2]. x \<noteq> ann2 \<longrightarrow> email x \<noteq> ''a@x.org''"
    by (simp add: bob1_def demo_user_def)
  have n: "username ann2 = ''ann''" by (simp add: ann2_def demo_user_def)
  have d: "bob1 \<noteq> ann2" by (simp add: bob1_def ann2_def demo_user_def)
  note t = change_email_frame [OF wf_two a h, unfolded n]
  from t have r: "raised (change_email [bob1, ann2] ''ann'' ''a@x.org'') = None"
    by blast
  from t have "store (change_email [bob1, ann2] ''ann'' ''a@x.org'') =
      map (\<lambda>x. if x = ann2 then ann2\<lparr>email := ''a@x.org''\<rparr> else x) [bob1, ann2]"
    by blast
  then have s: "store (change_email [bob1, ann2] ''ann'' ''a@x.org'') = [bob1, ann2\<lparr>email := ''a@x.org''\<rparr>]"
    using d by simp
  from t have "get_user (store (change_email [bob1, ann2] ''ann'' ''a@x.org'')) ''ann'' =
      \<lparr>raised = None, printed = [Rec (ann2\<lparr>email := ''a@x.org''\<rparr>)],
       store = store (change_email [bob1, ann2] ''ann'' ''a@x.org'')\<rparr>"
    by blast
  then have g: "printed (get_user (store (change_email [bob1, ann2] ''ann'' ''a@x.org'')) ''ann'') =
      [Rec (ann2\<lparr>email := ''a@x.org''\<rparr>)]"
    by (rule ssubst) simp
  show ?thesis
    using r s g by blast
qed

text \<open>
  C9, as stated: the confirmation of a successful \<open>change_email\<close> includes the old and
  the new email. It does not: after changing bob's email from bob@mail.com to rob@x.org
  the only text printed is "Updated bob's email to rob@x.org", which does not contain
  the old email.
\<close>

theorem change_email_old_email_not_printed:
  "raised (change_email [bob1] ''bob'' ''rob@x.org'') = None \<and>
   printed (change_email [bob1] ''bob'' ''rob@x.org'') = [Text (''Updated bob'' @ [CHR 0x27] @ ''s email to rob@x.org'')] \<and>
   email bob1 = ''bob@mail.com'' \<and>
   \<not> mentions (printed (change_email [bob1] ''bob'' ''rob@x.org'')) ''bob@mail.com''"
proof -
  have a: "bob1 \<in> set [bob1]" by simp
  have h: "\<forall>x \<in> set [bob1]. x \<noteq> bob1 \<longrightarrow> email x \<noteq> ''rob@x.org''" by simp
  have n: "username bob1 = ''bob''" "email bob1 = ''bob@mail.com''" by (simp_all add: bob1_def demo_user_def)
  have c: "change_email [bob1] ''bob'' ''rob@x.org'' =
      \<lparr>raised = None, printed = [Text (''Updated bob'' @ [CHR 0x27] @ ''s email to rob@x.org'')],
       store = [bob1\<lparr>email := ''rob@x.org''\<rparr>]\<rparr>"
    using change_email_success [OF wf_bob1 a h] unfolding n by simp
  have s: "\<not> sublist ''bob@mail.com'' (''Updated bob'' @ [CHR 0x27] @ ''s email to rob@x.org'')"
    by (simp add: sublist_code)
  show ?thesis
    using s by (simp add: c n mentions_def)
qed

text \<open>
  C9, amended: on success the confirmation of \<open>change_email\<close> is the single line
  "Updated <username>'s email to <new\_email>"; it includes the username and the new
  email.
\<close>

theorem change_email_confirmation:
  assumes "wf_store st" "usr \<in> set st" "\<forall>x \<in> set st. x \<noteq> usr \<longrightarrow> email x \<noteq> new_email"
  shows "printed (change_email st (username usr) new_email) =
           [Text (''Updated '' @ username usr @ [CHR 0x27] @ ''s email to '' @ new_email)] \<and>
         mentions (printed (change_email st (username usr) new_email)) (username usr) \<and>
         mentions (printed (change_email st (username usr) new_email)) new_email"
proof -
  have p: "printed (change_email st (username usr) new_email) =
           [Text (''Updated '' @ username usr @ [CHR 0x27] @ ''s email to '' @ new_email)]"
    using change_email_success [OF assms] by simp
  have "sublist (username usr) (''Updated '' @ username usr @ ([CHR 0x27] @ ''s email to '' @ new_email))"
    by (rule sublist_appendI)
  moreover have "sublist new_email ((''Updated '' @ username usr @ [CHR 0x27] @ ''s email to '') @ new_email)"
    by (rule sublist_append_leftI)
  ultimately show ?thesis
    unfolding p by (simp add: mentions_def)
qed

theorem change_email_confirmation_witness:
  "printed (change_email [bob1] ''bob'' ''rob@x.org'') =
     [Text (''Updated '' @ ''bob'' @ [CHR 0x27] @ ''s email to '' @ ''rob@x.org'')] \<and>
   mentions (printed (change_email [bob1] ''bob'' ''rob@x.org'')) ''bob'' \<and>
   mentions (printed (change_email [bob1] ''bob'' ''rob@x.org'')) ''rob@x.org''"
proof -
  have a: "bob1 \<in> set [bob1]" by simp
  have h: "\<forall>x \<in> set [bob1]. x \<noteq> bob1 \<longrightarrow> email x \<noteq> ''rob@x.org''" by simp
  have n: "username bob1 = ''bob''" by (simp add: bob1_def demo_user_def)
  show ?thesis
    using change_email_confirmation [OF wf_bob1 a h, unfolded n] by blast
qed

section \<open>The invariant is kept\<close>

text \<open>
  The mutating commands keep the invariant of the durable store, whatever their inputs
  and whichever branch they take; the stores that the commands can reach from the empty
  table are therefore well-formed.
\<close>

lemma fold_max_ge: "(a::nat) \<le> fold max xs a"
proof (induction xs arbitrary: a)
  case Nil
  show ?case by simp
next
  case (Cons x xs)
  have "a \<le> max x a" by simp
  also have "\<dots> \<le> fold max xs (max x a)" by (rule Cons.IH)
  finally show ?case by simp
qed

lemma fold_max_mem: "(x::nat) \<in> set xs \<Longrightarrow> x \<le> fold max xs a"
proof (induction xs arbitrary: a)
  case Nil
  then show ?case by simp
next
  case (Cons y ys)
  show ?case
  proof (cases "x = y")
    case True
    have "x \<le> max y a" using True by simp
    also have "\<dots> \<le> fold max ys (max y a)" by (rule fold_max_ge)
    finally show ?thesis by simp
  next
    case False
    then have "x \<in> set ys" using Cons.prems by simp
    then show ?thesis using Cons.IH by simp
  qed
qed

lemma fresh_id_new: "x \<in> set st \<Longrightarrow> user_id x \<noteq> Some (fresh_id st)"
proof
  assume x: "x \<in> set st" and e: "user_id x = Some (fresh_id st)"
  let ?ids = "map (\<lambda>r. case user_id r of None \<Rightarrow> 0 | Some i \<Rightarrow> i) st"
  have "fresh_id st \<in> set ?ids"
    using x e by (force simp: image_iff)
  then have "fresh_id st \<le> fold max ?ids 0"
    by (rule fold_max_mem)
  then show False
    by (simp add: fresh_id_def)
qed

lemma wf_store_create_user:
  assumes "wf_store st"
  shows "wf_store (store (create_user st u e p))"
proof (cases "\<exists>x \<in> set st. username x = u \<or> email x = e")
  case True
  then have "store (create_user st u e p) = st"
    by (simp add: create_user_def commit_insert Let_def release_rollback)
  then show ?thesis using assms by simp
next
  case False
  then have "store (create_user st u e p) = st @ [persist st (User u e p)]"
    by (simp add: create_user_def commit_insert Let_def release_def)
  moreover have "wf_store (st @ [persist st (User u e p)])"
    using assms False fresh_id_new [of _ st]
    by (auto simp: wf_store_def persist_def User_def)
  ultimately show ?thesis by simp
qed

lemma distinct_email_update:
  "distinct (map email st) \<Longrightarrow> \<forall>x \<in> set st. x \<noteq> usr \<longrightarrow> email x \<noteq> e \<Longrightarrow>
   distinct (map email (map (\<lambda>x. if x = usr then usr\<lparr>email := e\<rparr> else x) st))"
  by (induction st) (auto simp: image_iff)

lemma wf_store_change_email:
  assumes "wf_store st"
  shows "wf_store (store (change_email st u e))"
proof (cases "first (filter (\<lambda>x. username x = u) st)")
  case None
  then have "store (change_email st u e) = st"
    by (simp add: change_email_def exec_select_def get_session_def release_def)
  then show ?thesis using assms by simp
next
  case (Some usr)
  then have m: "usr \<in> set st" and n: "u = username usr"
    using first_filter_Some [of "\<lambda>x. username x = u" st usr] by simp_all
  show ?thesis
  proof (cases "\<exists>x \<in> set st. x \<noteq> usr \<and> email x = e")
    case True
    then obtain x where "x \<in> set st" "x \<noteq> usr" "email x = e" by blast
    then have "store (change_email st u e) = st"
      unfolding n using change_email_collision [OF assms m] by simp
    then show ?thesis using assms by simp
  next
    case False
    then have h: "\<forall>x \<in> set st. x \<noteq> usr \<longrightarrow> email x \<noteq> e" by blast
    let ?f = "\<lambda>x. if x = usr then usr\<lparr>email := e\<rparr> else x"
    have s: "store (change_email st u e) = map ?f st"
      unfolding n using change_email_success [OF assms m h] by simp
    have "map user_id (map ?f st) = map user_id st" "map username (map ?f st) = map username st"
      by (induction st) auto
    moreover have "distinct (map email (map ?f st))"
      using assms h by (intro distinct_email_update) (simp_all add: wf_store_def)
    moreover have "\<forall>x \<in> set (map ?f st). user_id x \<noteq> None"
      using assms m by (auto simp: wf_store_def)
    ultimately have "wf_store (map ?f st)"
      using assms unfolding wf_store_def by metis
    then show ?thesis by (simp add: s)
  qed
qed

lemma wf_store_delete_user:
  assumes "wf_store st"
  shows "wf_store (store (delete_user st u))"
proof (cases "first (exec_select (get_session st) (\<lambda>x. username x = u))")
  case None
  then show ?thesis using assms by (simp add: delete_user_def release_session)
next
  case (Some usr)
  then have "store (delete_user st u) = filter (\<lambda>x. user_id x \<noteq> user_id usr) st"
    by (simp add: delete_user_def commit_delete Let_def release_def)
  then show ?thesis
    using assms by (simp add: wf_store_def distinct_map_filter)
qed

lemma wf_store_initialize: "wf_store (store (initialize st))"
  by (simp add: initialize_def commit_def add_def create_db_and_tables_def drop_all_def
      get_session_def User_def persist_def fresh_id_def release_def Let_def wf_store_def)

section \<open>Searching by a partial string\<close>

text \<open>
  For a partial string without the wildcard characters, on an engine that compares
  characters exactly, the pattern match is the substring test, and the command prints
  the rows whose username or email contains the string, in store order.
\<close>

lemma like_percent: "like ceq ''%'' s"
  by (induction s) simp_all

lemma like_literal:
  "CHR ''%'' \<notin> set p \<Longrightarrow> CHR ''_'' \<notin> set p \<Longrightarrow> like binary (p @ ''%'') s = prefix p s"
proof (induction p arbitrary: s)
  case Nil
  show ?case by (simp add: like_percent)
next
  case (Cons a p)
  then show ?case by (cases s) (auto simp: binary_def)
qed

lemma contains_literal:
  assumes "CHR ''%'' \<notin> set p" "CHR ''_'' \<notin> set p"
  shows "contains binary s p = sublist p s"
proof (induction s)
  case Nil
  show ?case using like_literal [OF assms, of "[]"] by (simp add: contains_def)
next
  case (Cons c cs)
  have "contains binary (c # cs) p = (like binary (p @ ''%'') (c # cs) \<or> contains binary cs p)"
    by (simp add: contains_def)
  then show ?case
    using Cons like_literal [OF assms, of "c # cs"] by (simp add: sublist_Cons_right)
qed

lemma like_any: "like ceq ''%%%'' s"
  by (induction s) (simp_all add: like_percent)

lemma find_user_partial_literal:
  assumes "CHR ''%'' \<notin> set p" "CHR ''_'' \<notin> set p"
  shows "printed (find_user_partial binary st p) =
     (if filter (\<lambda>x. sublist p (username x) \<or> sublist p (email x)) st = []
      then [Text (''No users found matching '' @ [CHR 0x22] @ p @ [CHR 0x22])]
      else map Rec (filter (\<lambda>x. sublist p (username x) \<or> sublist p (email x)) st))"
  by (simp add: find_user_partial_def exec_select_def get_session_def contains_literal [OF assms])

text \<open>
  C3 says that \<open>find_user_partial\<close> prints exactly the rows whose username or email
  contains the partial string as a contiguous, case-sensitive substring. The command's
  help text says the same ("contains the given partial string"), but the query hands
  the string to \<^verbatim>\<open>LIKE\<close> unescaped. On the store holding only bob: the partial
  string \<^verbatim>\<open>%\<close> prints bob on every engine and \<^verbatim>\<open>b_b\<close> prints bob on an engine that
  compares exactly, although neither occurs in "bob" or in "bob@mail.com"; on an engine
  whose \<^verbatim>\<open>LIKE\<close> ignores ASCII case, \<^verbatim>\<open>BOB\<close> prints bob as well.
\<close>

theorem find_user_partial_wildcards:
  "printed (find_user_partial ceq [bob1] ''%'') = [Rec bob1] \<and>
   \<not> sublist ''%'' (username bob1) \<and> \<not> sublist ''%'' (email bob1) \<and>
   printed (find_user_partial binary [bob1] ''b_b'') = [Rec bob1] \<and>
   \<not> sublist ''b_b'' (username bob1) \<and> \<not> sublist ''b_b'' (email bob1) \<and>
   printed (find_user_partial nocase [bob1] ''BOB'') = [Rec bob1] \<and>
   \<not> sublist ''BOB'' (username bob1) \<and> \<not> sublist ''BOB'' (email bob1)"
proof -
  have n: "username bob1 = ''bob''" "email bob1 = ''bob@mail.com''"
    by (simp_all add: bob1_def demo_user_def)
  have a: "contains ceq (username bob1) ''%''"
    by (simp add: contains_def like_any)
  have b: "contains binary (username bob1) ''b_b''"
    by (simp add: contains_def n binary_def)
  have c: "contains nocase (username bob1) ''BOB''"
    by code_simp
  have s: "\<not> sublist ''%'' ''bob''" "\<not> sublist ''%'' ''bob@mail.com''"
    "\<not> sublist ''b_b'' ''bob''" "\<not> sublist ''b_b'' ''bob@mail.com''"
    "\<not> sublist ''BOB'' ''bob''" "\<not> sublist ''BOB'' ''bob@mail.com''"
    by (simp_all add: sublist_code)
  show ?thesis
    using s by (simp add: find_user_partial_def exec_select_def get_session_def a b c n [symmetric])
qed

section \<open>Paging\<close>

text \<open>
  C4, as stated: for every limit of at least 1 and every offset of at least 0,
  \<open>list_users\<close> prints the scan in store order without its first \<open>offset\<close> rows, cut
  after \<open>limit\<close> rows. It does not for a limit of \<open>2 ^ 63\<close>: the argument passes the
  check of the parser, the query raises \<open>OverflowError\<close>, and nothing is printed,
  although the page asked for on the store of five users is all five of them.
\<close>

theorem list_users_overflow:
  "(1::int) \<le> 2 ^ 63 \<and> (0::int) \<le> 0 \<and>
   list_users five_users (2 ^ 63) 0 =
     \<lparr>raised = Some OverflowError, printed = [], store = five_users\<rparr> \<and>
   take (nat (2 ^ 63)) (drop (nat 0) five_users) = five_users \<and>
   printed (list_users five_users (2 ^ 63) 0) \<noteq>
     map Rec (take (nat (2 ^ 63)) (drop (nat 0) five_users))"
proof -
  have l: "list_users five_users (2 ^ 63) 0 =
     \<lparr>raised = Some OverflowError, printed = [], store = five_users\<rparr>"
    by (simp add: list_users_def page_def release_session)
  have "length five_users \<le> nat (2 ^ 63)"
    by (simp add: five_users_def)
  then have t: "take (nat (2 ^ 63)) (drop (nat 0) five_users) = five_users"
    by simp
  have n: "five_users \<noteq> []"
    by (simp add: five_users_def)
  have "printed (list_users five_users (2 ^ 63) 0) = []"
    unfolding l by simp
  then have d: "printed (list_users five_users (2 ^ 63) 0) \<noteq>
     map Rec (take (nat (2 ^ 63)) (drop (nat 0) five_users))"
    unfolding t using n by simp
  show ?thesis
    using l t d by simp
qed

text \<open>
  C4, amended. On a store of exactly five users \<open>u1 .. u5\<close> in insertion order,
  \<open>list_users\<close> with limit 2 and offset 0 prints \<open>u1, u2\<close> in that order, and with
  limit 2 and offset 4 prints \<open>u5\<close> alone. In general, for a limit of at least 1 and an
  offset of at least 0, both below \<open>2 ^ 63\<close>, the command prints the scan in store
  order without its first \<open>offset\<close> rows, cut after \<open>limit\<close> rows ("No users found!"
  when that page is empty); a limit below 1 or an offset below 0 is rejected before the
  store is read.
\<close>

theorem list_users_page:
  "list_users [u1, u2, u3, u4, u5] 2 0 =
     \<lparr>raised = None, printed = [Rec u1, Rec u2], store = [u1, u2, u3, u4, u5]\<rparr> \<and>
   list_users [u1, u2, u3, u4, u5] 2 4 =
     \<lparr>raised = None, printed = [Rec u5], store = [u1, u2, u3, u4, u5]\<rparr> \<and>
   (1 \<le> limit \<and> limit < 2 ^ 63 \<and> 0 \<le> offset \<and> offset < 2 ^ 63 \<longrightarrow>
      raised (list_users st limit offset) = None \<and>
      printed (list_users st limit offset) =
        (if take (nat limit) (drop (nat offset) st) = [] then [Text ''No users found!'']
         else map Rec (take (nat limit) (drop (nat offset) st)))) \<and>
   (limit < 1 \<or> offset < 0 \<longrightarrow>
      list_users st limit offset = \<lparr>raised = Some BadParameter, printed = [], store = st\<rparr>)"
proof -
  have p: "l < 2 ^ 63 \<Longrightarrow> off < 2 ^ 63 \<Longrightarrow>
      page (get_session xs) l off = Inr (take (nat l) (drop (nat off) xs))" for xs l off
    by (simp add: page_def exec_select_def get_session_def)
  have two: "nat 2 = Suc (Suc 0)" "nat 4 = Suc (Suc (Suc (Suc 0)))"
    by simp_all
  have p20: "page (get_session xs) 2 0 = Inr (take (nat 2) (drop (nat 0) xs))" for xs
    by (rule p) simp_all
  have p24: "page (get_session xs) 2 4 = Inr (take (nat 2) (drop (nat 4) xs))" for xs
    by (rule p) simp_all
  have a: "list_users [u1, u2, u3, u4, u5] 2 0 =
     \<lparr>raised = None, printed = [Rec u1, Rec u2], store = [u1, u2, u3, u4, u5]\<rparr>"
    by (simp add: list_users_def p20 two release_session)
  have b: "list_users [u1, u2, u3, u4, u5] 2 4 =
     \<lparr>raised = None, printed = [Rec u5], store = [u1, u2, u3, u4, u5]\<rparr>"
    by (simp add: list_users_def p24 two release_session)
  have c: "1 \<le> limit \<and> limit < 2 ^ 63 \<and> 0 \<le> offset \<and> offset < 2 ^ 63 \<longrightarrow>
      raised (list_users st limit offset) = None \<and>
      printed (list_users st limit offset) =
        (if take (nat limit) (drop (nat offset) st) = [] then [Text ''No users found!'']
         else map Rec (take (nat limit) (drop (nat offset) st)))"
    by (simp add: list_users_def p Let_def)
  have d: "limit < 1 \<or> offset < 0 \<longrightarrow>
      list_users st limit offset = \<lparr>raised = Some BadParameter, printed = [], store = st\<rparr>"
    by (simp add: list_users_def)
  show ?thesis
    using a b c d by blast
qed

theorem list_users_page_witness:
  "list_users five_users 2 0 =
     \<lparr>raised = None, printed = [Rec (demo_user 1 ''bob''), Rec (demo_user 2 ''ann'')], store = five_users\<rparr> \<and>
   list_users five_users 2 4 =
     \<lparr>raised = None, printed = [Rec (demo_user 5 ''eve'')], store = five_users\<rparr> \<and>
   printed (list_users five_users 3 1) =
     [Rec (demo_user 2 ''ann''), Rec (demo_user 3 ''cy''), Rec (demo_user 4 ''dee'')] \<and>
   printed (list_users five_users 10 5) = [Text ''No users found!''] \<and>
   list_users five_users 0 0 = \<lparr>raised = Some BadParameter, printed = [], store = five_users\<rparr>"
proof -
  note t = list_users_page [of "demo_user 1 ''bob''" "demo_user 2 ''ann''" "demo_user 3 ''cy''"
      "demo_user 4 ''dee''" "demo_user 5 ''eve''", folded five_users_def]
  have a: "list_users five_users 2 0 =
     \<lparr>raised = None, printed = [Rec (demo_user 1 ''bob''), Rec (demo_user 2 ''ann'')], store = five_users\<rparr>"
    using t [of 1 0 "[]"] by blast
  have b: "list_users five_users 2 4 =
     \<lparr>raised = None, printed = [Rec (demo_user 5 ''eve'')], store = five_users\<rparr>"
    using t [of 1 0 "[]"] by blast
  have n: "nat 3 = Suc (Suc (Suc 0))" "nat 1 = Suc 0" "nat 5 = Suc (Suc (Suc (Suc (Suc 0))))"
    by simp_all
  have "(1::int) \<le> 3 \<and> (3::int) < 2 ^ 63 \<and> (0::int) \<le> 1 \<and> (1::int) < 2 ^ 63" by simp
  with t [of 3 1 five_users] have "printed (list_users five_users 3 1) =
        (if take (nat 3) (drop (nat 1) five_users) = [] then [Text ''No users found!'']
         else map Rec (take (nat 3) (drop (nat 1) five_users)))"
    by blast
  then have c: "printed (list_users five_users 3 1) =
     [Rec (demo_user 2 ''ann''), Rec (demo_user 3 ''cy''), Rec (demo_user 4 ''dee'')]"
    by (simp add: five_users_def n)
  have "(1::int) \<le> 10 \<and> (10::int) < 2 ^ 63 \<and> (0::int) \<le> 5 \<and> (5::int) < 2 ^ 63" by simp
  with t [of 10 5 five_users] have "printed (list_users five_users 10 5) =
        (if take (nat 10) (drop (nat 5) five_users) = [] then [Text ''No users found!'']
         else map Rec (take (nat 10) (drop (nat 5) five_users)))"
    by blast
  then have d: "printed (list_users five_users 10 5) = [Text ''No users found!'']"
    by (simp add: five_users_def n)
  have "(0::int) < 1 \<or> (0::int) < 0" by simp
  with t [of 0 0 five_users] have e: "list_users five_users 0 0 = \<lparr>raised = Some BadParameter, printed = [], store = five_users\<rparr>"
    by blast
  show ?thesis
    using a b c d e by blast
qed

section \<open>Initialisation\<close>

text \<open>
  C5. Whatever the store held, \<open>initialize\<close> leaves exactly one row, bob with email
  bob@mail.com and password bobpass; running it a second time gives the same outcome
  and the same store, with one row named bob and never two.
\<close>

theorem initialize_idempotent:
  "initialize st =
     \<lparr>raised = None, printed = [Text ''Database Initialized''],
      store = [\<lparr>user_id = Some 1, username = ''bob'', email = ''bob@mail.com'', password = ''bobpass''\<rparr>]\<rparr> \<and>
   initialize (store (initialize st)) = initialize st \<and>
   length (filter (\<lambda>x. username x = ''bob'') (store (initialize (store (initialize st))))) = 1"
proof -
  have c: "commit (add (create_db_and_tables (drop_all (get_session xs))) (User ''bob'' ''bob@mail.com'' ''bobpass'')) =
      Inr \<lparr>durable = [\<lparr>user_id = Some 1, username = ''bob'', email = ''bob@mail.com'', password = ''bobpass''\<rparr>],
           staged = []\<rparr>" for xs
    by (simp add: commit_def add_def create_db_and_tables_def drop_all_def get_session_def User_def
        persist_def fresh_id_def)
  have i: "initialize xs =
     \<lparr>raised = None, printed = [Text ''Database Initialized''],
      store = [\<lparr>user_id = Some 1, username = ''bob'', email = ''bob@mail.com'', password = ''bobpass''\<rparr>]\<rparr>" for xs
    by (simp add: initialize_def c Let_def release_def)
  show ?thesis
    by (simp add: i)
qed

theorem initialize_idempotent_witness:
  "initialize (store (initialize [bob1, ann2])) = initialize [bob1, ann2] \<and>
   store (initialize [bob1, ann2]) = [bob1]"
proof -
  note t = initialize_idempotent [of "[bob1, ann2]"]
  have b: "bob1 = \<lparr>user_id = Some 1, username = ''bob'', email = ''bob@mail.com'', password = ''bobpass''\<rparr>"
    by (simp add: bob1_def demo_user_def)
  from t have "initialize [bob1, ann2] =
     \<lparr>raised = None, printed = [Text ''Database Initialized''],
      store = [\<lparr>user_id = Some 1, username = ''bob'', email = ''bob@mail.com'', password = ''bobpass''\<rparr>]\<rparr>"
    by blast
  then have s: "store (initialize [bob1, ann2]) = [bob1]"
    by (simp add: b)
  from t have i: "initialize (store (initialize [bob1, ann2])) = initialize [bob1, ann2]"
    by blast
  show ?thesis
    using s i by blast
qed

section \<open>Commands that only read\<close>

text \<open>
  C10. \<open>get_user\<close>, \<open>get_all_users\<close>, \<open>find_user_partial\<close> and \<open>list_users\<close> leave
  the durable store as it was, for every store and every input, whether something was
  found or not (and also when \<open>list_users\<close> rejects its arguments or its query raises).
\<close>

theorem read_only_commands_keep_store:
  "store (get_user st u) = st \<and> store (get_all_users st) = st \<and>
   store (find_user_partial ceq st partial) = st \<and> store (list_users st limit offset) = st"
  by (simp add: get_user_def get_all_users_def find_user_partial_def list_users_def Let_def
      release_session split: option.split sum.split)

theorem read_only_commands_keep_store_witness:
  "store (get_user [bob1] ''bob'') = [bob1] \<and> store (get_user [bob1] ''ann'') = [bob1] \<and>
   store (get_all_users [bob1]) = [bob1] \<and> store (get_all_users []) = [] \<and>
   store (find_user_partial binary [bob1] ''ob'') = [bob1] \<and>
   store (find_user_partial binary [bob1] ''zz'') = [bob1] \<and>
   store (list_users [bob1] 10 0) = [bob1] \<and> store (list_users [bob1] 10 3) = [bob1]"
  using read_only_commands_keep_store [of "[bob1]" "''bob''" binary "''ob''" 10 0]
    read_only_commands_keep_store [of "[bob1]" "''ann''" binary "''zz''" 10 3] read_only_commands_keep_store [of "[]" "''ann''" binary "''zz''" 10 3]
  by blast

end
